theory Spec2Isabelle
  imports Main "HOL-Library.Char_ord" "HOL-Library.List_Lexorder"
begin

section \<open>Data model of the key resolver core (kleo/keyresolvercore.cpp)\<close>

text \<open>
  \<open>GpgME::Protocol\<close>, in the order of the enumeration (this is also the order in which
  a \<open>QMap<Protocol, ...>\<close> is iterated).
\<close>

datatype Protocol = OpenPGP | CMS | UnknownProtocol

definition protocols :: "Protocol list" where
  "protocols = [OpenPGP, CMS, UnknownProtocol]"

text \<open>\<open>GpgME::UserID::Validity\<close> and its integer value (\<open>static_cast<int>\<close>).\<close>

datatype Validity = Unknown | Undefined | Never | Marginal | Full | Ultimate

fun validityInt :: "Validity \<Rightarrow> int" where
  "validityInt Unknown = 0"
| "validityInt Undefined = 1"
| "validityInt Never = 2"
| "validityInt Marginal = 3"
| "validityInt Full = 4"
| "validityInt Ultimate = 5"

record UserID =
  addrSpec :: string
  validity :: Validity

text \<open>
  The attributes of a certificate that the resolver reads. \<open>keyIsDeVs\<close> is the answer of
  \<open>Formatting::isKeyDeVs\<close> for the certificate.
\<close>

record KeyData =
  keyProtocol :: Protocol
  keyFingerprint :: string
  keyRevoked :: bool
  keyExpired :: bool
  keyDisabled :: bool
  keyCanEncrypt :: bool
  keyCanSign :: bool
  keyHasSecret :: bool
  keyIsDeVs :: bool
  keyUserIDs :: "UserID list"

text \<open>
  A \<open>GpgME::Key\<close> is a handle that may be null: \<open>None\<close> is the null key. The accessors
  answer for a null key what gpgme++ answers: \<open>false\<close>, no user ids, unknown protocol.
\<close>

type_synonym Key = "KeyData option"

definition isNull :: "Key \<Rightarrow> bool" where
  "isNull key = (case key of None \<Rightarrow> True | Some d \<Rightarrow> False)"

definition isRevoked :: "Key \<Rightarrow> bool" where
  "isRevoked key = (case key of None \<Rightarrow> False | Some d \<Rightarrow> keyRevoked d)"

definition isExpired :: "Key \<Rightarrow> bool" where
  "isExpired key = (case key of None \<Rightarrow> False | Some d \<Rightarrow> keyExpired d)"

definition isDisabled :: "Key \<Rightarrow> bool" where
  "isDisabled key = (case key of None \<Rightarrow> False | Some d \<Rightarrow> keyDisabled d)"

definition canEncrypt :: "Key \<Rightarrow> bool" where
  "canEncrypt key = (case key of None \<Rightarrow> False | Some d \<Rightarrow> keyCanEncrypt d)"

definition canSign :: "Key \<Rightarrow> bool" where
  "canSign key = (case key of None \<Rightarrow> False | Some d \<Rightarrow> keyCanSign d)"

definition hasSecret :: "Key \<Rightarrow> bool" where
  "hasSecret key = (case key of None \<Rightarrow> False | Some d \<Rightarrow> keyHasSecret d)"

definition isKeyDeVs :: "Key \<Rightarrow> bool" where
  "isKeyDeVs key = (case key of None \<Rightarrow> False | Some d \<Rightarrow> keyIsDeVs d)"

definition protocol :: "Key \<Rightarrow> Protocol" where
  "protocol key = (case key of None \<Rightarrow> UnknownProtocol | Some d \<Rightarrow> keyProtocol d)"

definition userIDs :: "Key \<Rightarrow> UserID list" where
  "userIDs key = (case key of None \<Rightarrow> [] | Some d \<Rightarrow> keyUserIDs d)"

text \<open>
  The collaborators the resolver calls: the address normalisation of gpgme++
  (\<open>UserID::addrSpecFromString\<close>, the empty string when no address can be extracted), the
  case folding of Qt (\<open>QString::toLower\<close>) and the two lookups of the key cache. None of
  them is part of the resolver; they are taken as they are. Conversions between
  \<open>QString\<close>, UTF-8 and \<open>std::string\<close> are the identity on the model's strings.
\<close>

record Env =
  addrSpecFromString :: "string \<Rightarrow> string"
  toLower :: "string \<Rightarrow> string"
  findBestByMailBox :: "string \<Rightarrow> Protocol \<Rightarrow> bool \<Rightarrow> bool \<Rightarrow> Key list"
  findByKeyIDOrFingerprint :: "string \<Rightarrow> Key"

subsection \<open>QMap\<close>

text \<open>
  A \<open>QMap<QString, V>\<close> is kept as an association list in ascending key order, the order
  in which the code iterates over it. A \<open>QMap<Protocol, V>\<close> has at most three keys and is
  a partial function, iterated along \<open>protocols\<close>.
\<close>

type_synonym 'v QMap = "(string \<times> 'v) list"

fun qmapInsert :: "string \<Rightarrow> 'v \<Rightarrow> 'v QMap \<Rightarrow> 'v QMap" where
  "qmapInsert k v [] = [(k, v)]"
| "qmapInsert k v ((k', v') # rest) =
     (if k = k' then (k, v) # rest
      else if k < k' then (k, v) # (k', v') # rest
      else (k', v') # qmapInsert k v rest)"

text \<open>\<open>QMap::value(key)\<close> with a default-constructed value for a missing key.\<close>

definition valueOr :: "('k \<rightharpoonup> 'v list) \<Rightarrow> 'k \<Rightarrow> 'v list" where
  "valueOr m k = (case m k of None \<Rightarrow> [] | Some v \<Rightarrow> v)"

definition qmapValue :: "('k \<rightharpoonup> 'v list) QMap \<Rightarrow> string \<Rightarrow> ('k \<rightharpoonup> 'v list)" where
  "qmapValue m k = (case map_of m k of None \<Rightarrow> Map.empty | Some v \<Rightarrow> v)"

definition contains :: "('k \<rightharpoonup> 'v) \<Rightarrow> 'k \<Rightarrow> bool" where
  "contains m k = (case m k of None \<Rightarrow> False | Some v \<Rightarrow> True)"

subsection \<open>The resolver's state (class KeyResolverCore::Private)\<close>

record Private =
  mSender :: string
  mRecipients :: "string list"
  mSigKeys :: "Protocol \<rightharpoonup> Key list"
  mEncKeys :: "(Protocol \<rightharpoonup> Key list) QMap"
  mOverrides :: "(Protocol \<rightharpoonup> string list) QMap"
  mFormat :: Protocol
  mFatalErrors :: "string list"
  mEncrypt :: bool
  mSign :: bool
  mAllowMixed :: bool
  mPreferredProtocol :: Protocol
  mMinimumValidity :: int
  mCompliance :: string

text \<open>The constructor; \<open>compliance\<close> is what \<open>Formatting::complianceMode()\<close> returns.\<close>

definition newPrivate :: "bool \<Rightarrow> bool \<Rightarrow> Protocol \<Rightarrow> string \<Rightarrow> Private" where
  "newPrivate enc sig fmt compliance =
     \<lparr> mSender = [], mRecipients = [], mSigKeys = Map.empty, mEncKeys = [], mOverrides = [],
       mFormat = fmt, mFatalErrors = [], mEncrypt = enc, mSign = sig, mAllowMixed = True,
       mPreferredProtocol = UnknownProtocol, mMinimumValidity = validityInt Marginal,
       mCompliance = compliance \<rparr>"

section \<open>Acceptability of certificates\<close>

definition ValidEncryptionKey :: "Key \<Rightarrow> bool" where
  "ValidEncryptionKey key =
     (if isNull key \<or> isRevoked key \<or> isExpired key \<or> isDisabled key \<or> \<not> canEncrypt key
      then False else True)"

definition ValidSigningKey :: "Key \<Rightarrow> bool" where
  "ValidSigningKey key =
     (if isNull key \<or> isRevoked key \<or> isExpired key \<or> isDisabled key \<or> \<not> canSign key
         \<or> \<not> hasSecret key
      then False else True)"

text \<open>
  \<open>keyValidity\<close>: the validity of the first user id matching the address or, if none
  matches, the maximal validity of all user ids.
\<close>

fun keyValidityLoop :: "Env \<Rightarrow> UserID list \<Rightarrow> string \<Rightarrow> int \<Rightarrow> int" where
  "keyValidityLoop e [] address overallValidity = overallValidity"
| "keyValidityLoop e (uid # uids) address overallValidity =
     (if toLower e (addrSpec uid) = toLower e address then validityInt (validity uid)
      else keyValidityLoop e uids address (max overallValidity (validityInt (validity uid))))"

definition keyValidity :: "Env \<Rightarrow> Key \<Rightarrow> string \<Rightarrow> int" where
  "keyValidity e key address = keyValidityLoop e (userIDs key) address (validityInt Unknown)"

definition minimumValidity :: "Env \<Rightarrow> Key list \<Rightarrow> string \<Rightarrow> int" where
  "minimumValidity e keys address =
     (let minValidity =
            foldl (\<lambda>v key. min v (keyValidity e key address)) (validityInt Ultimate + 1) keys
      in if minValidity \<le> validityInt Ultimate then minValidity else validityInt Unknown)"

definition isAcceptableSigningKey :: "Private \<Rightarrow> Key \<Rightarrow> bool" where
  "isAcceptableSigningKey s key =
     (if \<not> ValidSigningKey key then False
      else if mCompliance s = ''de-vs'' \<and> \<not> isKeyDeVs key then False
      else True)"

text \<open>The address defaults to the empty string, which switches the validity check off.\<close>

definition isAcceptableEncryptionKey :: "Private \<Rightarrow> Key \<Rightarrow> string \<Rightarrow> bool" where
  "isAcceptableEncryptionKey s key address =
     (if \<not> ValidEncryptionKey key then False
      else if mCompliance s = ''de-vs'' \<and> \<not> isKeyDeVs key then False
      else if address = [] then True
      else list_ex (\<lambda>uid. addrSpec uid = address
                        \<and> mMinimumValidity s \<le> validityInt (validity uid)) (userIDs key))"

section \<open>Configuration\<close>

definition recipientError :: "string \<Rightarrow> string" where
  "recipientError addr =
     ''The mail address for '' @ [CHR 0x27] @ addr @ [CHR 0x27] @ '' could not be extracted''"

definition senderError :: "string \<Rightarrow> string" where
  "senderError addr =
     ''The sender address '' @ [CHR 0x27] @ addr @ [CHR 0x27] @ '' could not be extracted''"

text \<open>One round of the loop of \<open>addRecipients\<close>.\<close>

definition addRecipient :: "Env \<Rightarrow> string \<Rightarrow> Private \<Rightarrow> Private" where
  "addRecipient e addr s =
     (let normalized = addrSpecFromString e addr in
      if normalized = [] then s\<lparr>mFatalErrors := mFatalErrors s @ [recipientError addr]\<rparr>
      else s\<lparr>mRecipients := mRecipients s @ [normalized],
             mEncKeys := qmapInsert normalized [CMS \<mapsto> [], OpenPGP \<mapsto> []] (mEncKeys s)\<rparr>)"

definition addRecipients :: "Env \<Rightarrow> string list \<Rightarrow> Private \<Rightarrow> Private" where
  "addRecipients e addresses s =
     (if \<not> mEncrypt s then s else fold (addRecipient e) addresses s)"

definition setSender :: "Env \<Rightarrow> string \<Rightarrow> Private \<Rightarrow> Private" where
  "setSender e address s =
     (let normalized = addrSpecFromString e address in
      if normalized = [] then s\<lparr>mFatalErrors := mFatalErrors s @ [senderError address]\<rparr>
      else addRecipients e [address] (if mSign s then s\<lparr>mSender := normalized\<rparr> else s))"

text \<open>
  \<open>setOverrideKeys\<close>: the argument is a \<open>QMap<Protocol, QMap<QString, QStringList>>\<close>,
  given as the sequence of its entries in iteration order. The normalised address is not
  checked for emptiness here.
\<close>

definition setOverride :: "Env \<Rightarrow> Protocol \<Rightarrow> string \<times> string list \<Rightarrow> Private \<Rightarrow> Private" where
  "setOverride e proto entry s =
     (let normalizedAddress = addrSpecFromString e (fst entry) in
      s\<lparr>mOverrides :=
          qmapInsert normalizedAddress
            ((qmapValue (mOverrides s) normalizedAddress)(proto \<mapsto> snd entry)) (mOverrides s)\<rparr>)"

definition setOverrideKeys ::
  "Env \<Rightarrow> (Protocol \<times> (string \<times> string list) list) list \<Rightarrow> Private \<Rightarrow> Private" where
  "setOverrideKeys e overrides s =
     fold (\<lambda>protocolEntry. fold (setOverride e (fst protocolEntry)) (snd protocolEntry))
       overrides s"

definition setSigningKey :: "Env \<Rightarrow> string \<Rightarrow> Private \<Rightarrow> Private" where
  "setSigningKey e fpr s =
     (let key = findByKeyIDOrFingerprint e fpr in
      if isNull key then s
      else s\<lparr>mSigKeys :=
               (mSigKeys s)(protocol key \<mapsto> valueOr (mSigKeys s) (protocol key) @ [key])\<rparr>)"

definition setSigningKeys :: "Env \<Rightarrow> string list \<Rightarrow> Private \<Rightarrow> Private" where
  "setSigningKeys e fingerprints s =
     (if mSign s then fold (setSigningKey e) fingerprints s else s)"

definition setAllowMixedProtocols :: "bool \<Rightarrow> Private \<Rightarrow> Private" where
  "setAllowMixedProtocols allowMixed s = s\<lparr>mAllowMixed := allowMixed\<rparr>"

definition setPreferredProtocol :: "Protocol \<Rightarrow> Private \<Rightarrow> Private" where
  "setPreferredProtocol proto s = s\<lparr>mPreferredProtocol := proto\<rparr>"

definition setMinimumValidity :: "int \<Rightarrow> Private \<Rightarrow> Private" where
  "setMinimumValidity v s = s\<lparr>mMinimumValidity := v\<rparr>"

section \<open>Resolution\<close>

subsection \<open>Overrides\<close>

text \<open>
  \<open>mEncKeys[address][resolvedFmt].push_back(key)\<close>: both index operators create a missing
  entry.
\<close>

definition pushEncKey ::
  "string \<Rightarrow> Protocol \<Rightarrow> Key \<Rightarrow> (Protocol \<rightharpoonup> Key list) QMap \<Rightarrow> (Protocol \<rightharpoonup> Key list) QMap" where
  "pushEncKey address fmt key m =
     (let protocolKeysMap = qmapValue m address in
      qmapInsert address (protocolKeysMap(fmt \<mapsto> valueOr protocolKeysMap fmt @ [key])) m)"

definition overrideKey ::
  "Env \<Rightarrow> string \<Rightarrow> Protocol \<Rightarrow> string \<Rightarrow> (Protocol \<rightharpoonup> Key list) QMap
     \<Rightarrow> (Protocol \<rightharpoonup> Key list) QMap" where
  "overrideKey e address proto fprOrId m =
     (let key = findByKeyIDOrFingerprint e fprOrId in
      if isNull key then m
      else pushEncKey address (if proto = UnknownProtocol then protocol key else proto) key m)"

definition overrideProtocol ::
  "Env \<Rightarrow> Protocol \<Rightarrow> string \<Rightarrow> (Protocol \<rightharpoonup> string list) \<Rightarrow> Protocol
     \<Rightarrow> (Protocol \<rightharpoonup> Key list) QMap \<Rightarrow> (Protocol \<rightharpoonup> Key list) QMap" where
  "overrideProtocol e fmt address protocolFingerprintsMap proto m =
     (case protocolFingerprintsMap proto of
        None \<Rightarrow> m
      | Some fingerprints \<Rightarrow>
          if (fmt = OpenPGP \<and> proto = CMS) \<or> (fmt = CMS \<and> proto = OpenPGP) then m
          else fold (overrideKey e address proto) fingerprints m)"

definition overrideAddress ::
  "Env \<Rightarrow> string \<times> (Protocol \<rightharpoonup> string list) \<Rightarrow> Private \<Rightarrow> Private" where
  "overrideAddress e entry s =
     (if fst entry \<notin> set (mRecipients s) then s
      else s\<lparr>mEncKeys :=
               fold (overrideProtocol e (mFormat s) (fst entry) (snd entry)) protocols
                 (mEncKeys s)\<rparr>)"

definition resolveOverrides :: "Env \<Rightarrow> Private \<Rightarrow> Private" where
  "resolveOverrides e s =
     (if \<not> mEncrypt s then s else fold (overrideAddress e) (mOverrides s) s)"

subsection \<open>Signing and encryption certificates of one protocol\<close>

text \<open>
  The loop of \<open>resolveSign\<close> over the candidates: \<open>True\<close> when it runs to its end,
  \<open>False\<close> when it returns from the function at an unacceptable key.
\<close>

fun signingKeysPass :: "Private \<Rightarrow> Key list \<Rightarrow> bool" where
  "signingKeysPass s [] = True"
| "signingKeysPass s (key # keys) =
     (if isNull key then signingKeysPass s keys
      else if \<not> isAcceptableSigningKey s key then False
      else signingKeysPass s keys)"

definition resolveSign :: "Env \<Rightarrow> Protocol \<Rightarrow> Private \<Rightarrow> Private" where
  "resolveSign e proto s =
     (if contains (mSigKeys s) proto then s
      else
        let keys = findBestByMailBox e (mSender s) proto True False in
        if \<not> signingKeysPass s keys then s
        else if keys \<noteq> [] \<and> \<not> isNull (hd keys) then s\<lparr>mSigKeys := (mSigKeys s)(proto \<mapsto> keys)\<rparr>
        else s)"

text \<open>The loop over a group in \<open>resolveRecipient\<close>: the flag \<open>unacceptable\<close> at its end.\<close>

fun groupUnacceptable :: "Private \<Rightarrow> Key list \<Rightarrow> bool" where
  "groupUnacceptable s [] = False"
| "groupUnacceptable s (key # keys) =
     (if \<not> isAcceptableEncryptionKey s key [] then True else groupUnacceptable s keys)"

definition resolveRecipient :: "Env \<Rightarrow> Private \<Rightarrow> string \<Rightarrow> Protocol \<Rightarrow> Key list" where
  "resolveRecipient e s address proto =
     (let keys = findBestByMailBox e address proto False True in
      if keys = [] \<or> isNull (hd keys) then []
      else if length keys = 1 then
        (if \<not> isAcceptableEncryptionKey s (hd keys) address then [] else keys)
      else if groupUnacceptable s keys then []
      else keys)"

text \<open>
  \<open>resolveEnc\<close> visits every entry of \<open>mEncKeys\<close>; \<open>protocolKeysMap[proto]\<close> creates a
  missing entry, which is then empty and resolved.
\<close>

definition resolveEncEntry ::
  "Env \<Rightarrow> Private \<Rightarrow> Protocol \<Rightarrow> string \<times> (Protocol \<rightharpoonup> Key list)
     \<Rightarrow> string \<times> (Protocol \<rightharpoonup> Key list)" where
  "resolveEncEntry e s proto entry =
     (if valueOr (snd entry) proto \<noteq> [] then entry
      else (fst entry, (snd entry)(proto \<mapsto> resolveRecipient e s (fst entry) proto)))"

definition resolveEnc :: "Env \<Rightarrow> Protocol \<Rightarrow> Private \<Rightarrow> Private" where
  "resolveEnc e proto s = s\<lparr>mEncKeys := map (resolveEncEntry e s proto) (mEncKeys s)\<rparr>"

subsection \<open>Merging the protocols\<close>

definition mergeEntry ::
  "Env \<Rightarrow> Protocol \<Rightarrow> string \<times> (Protocol \<rightharpoonup> Key list)
     \<Rightarrow> string \<times> (Protocol \<rightharpoonup> Key list)" where
  "mergeEntry e preferred entry =
     (let address = fst entry;
          protocolKeysMap =
            (if contains (snd entry) UnknownProtocol then snd entry
             else (snd entry)(UnknownProtocol \<mapsto> []))
      in
      if valueOr protocolKeysMap UnknownProtocol \<noteq> [] then (address, protocolKeysMap)
      else
        let keysOpenPGP = valueOr protocolKeysMap OpenPGP;
            keysCMS = valueOr protocolKeysMap CMS
        in
        if keysOpenPGP = [] \<and> keysCMS = [] then (address, protocolKeysMap)
        else if keysOpenPGP \<noteq> [] \<and> keysCMS = [] then
          (address, protocolKeysMap(UnknownProtocol \<mapsto> keysOpenPGP))
        else if keysOpenPGP = [] \<and> keysCMS \<noteq> [] then
          (address, protocolKeysMap(UnknownProtocol \<mapsto> keysCMS))
        else
          let validityPGP = minimumValidity e keysOpenPGP address;
              validityCMS = minimumValidity e keysCMS address
          in
          if validityPGP > validityCMS \<or> (validityPGP = validityCMS \<and> preferred = OpenPGP)
          then (address, protocolKeysMap(UnknownProtocol \<mapsto> keysOpenPGP))
          else if validityCMS > validityPGP \<or> (validityCMS = validityPGP \<and> preferred = CMS)
          then (address, protocolKeysMap(UnknownProtocol \<mapsto> keysCMS))
          else (address, protocolKeysMap(UnknownProtocol \<mapsto> keysOpenPGP)))"

definition mergeEncryptionKeys :: "Env \<Rightarrow> Private \<Rightarrow> Private" where
  "mergeEncryptionKeys e s =
     s\<lparr>mEncKeys := map (mergeEntry e (mPreferredProtocol s)) (mEncKeys s)\<rparr>"

subsection \<open>The decision\<close>

definition unresolvedRecipients :: "Private \<Rightarrow> Protocol \<Rightarrow> string list" where
  "unresolvedRecipients s proto =
     map fst (filter (\<lambda>entry. valueOr (snd entry) proto = []) (mEncKeys s))"

text \<open>
  \<open>mSigKeys.remove(proto)\<close> together with \<open>protocolKeysMap.remove(proto)\<close> for every
  address.
\<close>

definition removeProtocol :: "Protocol \<Rightarrow> Private \<Rightarrow> Private" where
  "removeProtocol proto s =
     s\<lparr>mSigKeys := (mSigKeys s)(proto := None),
       mEncKeys := map (\<lambda>entry. (fst entry, (snd entry)(proto := None))) (mEncKeys s)\<rparr>"

definition resolve :: "Env \<Rightarrow> Private \<Rightarrow> bool \<times> Private" where
  "resolve e s0 =
     (if \<not> mSign s0 \<and> \<not> mEncrypt s0 then (True, s0)
      else
        let s1 = resolveOverrides e s0;
            s2 = (if mFormat s1 \<noteq> CMS then resolveEnc e OpenPGP (resolveSign e OpenPGP s1)
                  else s1);
            unresolvedPGP = unresolvedRecipients s2 OpenPGP;
            pgpOnly = (unresolvedPGP = []
                       \<and> (if mSign s2 then contains (mSigKeys s2) OpenPGP else True));
            s3 = (if mFormat s2 \<noteq> OpenPGP then resolveEnc e CMS (resolveSign e CMS s2)
                  else s2);
            unresolvedCMS = unresolvedRecipients s3 CMS;
            cmsOnly = (unresolvedCMS = []
                       \<and> (if mSign s3 then contains (mSigKeys s3) CMS else True));
            s4 = (if mAllowMixed s3 \<and> mFormat s3 = UnknownProtocol
                  then mergeEncryptionKeys e s3 else s3);
            needsUser =
              (if \<not> pgpOnly \<and> \<not> cmsOnly then
                 list_ex (\<lambda>unresolved. unresolved \<in> set unresolvedCMS) unresolvedPGP
                 \<or> (if mSign s4
                     then \<not> (contains (mSigKeys s4) OpenPGP \<and> contains (mSigKeys s4) CMS)
                     else False)
               else False)
        in
        if \<not> needsUser then
          (True,
           if pgpOnly \<and> cmsOnly then
             (if mPreferredProtocol s4 = CMS then removeProtocol OpenPGP s4
              else removeProtocol CMS s4)
           else if pgpOnly then removeProtocol CMS s4
           else if cmsOnly then removeProtocol OpenPGP s4
           else s4)
        else (False, s4))"

subsection \<open>What the caller reads\<close>

definition signingKeys :: "Private \<Rightarrow> (Protocol \<rightharpoonup> Key list)" where
  "signingKeys s = mSigKeys s"

text \<open>
  \<open>encryptionKeys()\<close>: per protocol the addresses with a non-empty list of certificates;
  a protocol without any such address is not a key of the result.
\<close>

definition encryptionKeys :: "Private \<Rightarrow> (Protocol \<rightharpoonup> Key list QMap)" where
  "encryptionKeys s proto =
     (let byAddress =
            map (\<lambda>entry. (fst entry, valueOr (snd entry) proto))
              (filter (\<lambda>entry. valueOr (snd entry) proto \<noteq> []) (mEncKeys s))
      in if byAddress = [] then None else Some byAddress)"

text \<open>The list of certificates of one address in one protocol: \<open>mEncKeys.value(a).value(p)\<close>.\<close>

definition encKeysOf :: "Private \<Rightarrow> string \<Rightarrow> Protocol \<Rightarrow> Key list" where
  "encKeysOf s address proto = valueOr (qmapValue (mEncKeys s) address) proto"

section \<open>Examples\<close>

subsection \<open>A store\<close>

text \<open>
  A small certificate store in the style of the fixtures of the resolver's tests: one
  address with certificates in both protocols, one with an OpenPGP certificate only, one
  with an S/MIME certificate only, two addresses that name OpenPGP groups, the second
  with an expired member, and one address that names an OpenPGP group of certificates
  issued for other addresses and has an S/MIME certificate of its own. For any other
  address the lookup answers with a single null key.
\<close>

definition exampleKeyData :: "Protocol \<Rightarrow> string \<Rightarrow> string \<Rightarrow> Validity \<Rightarrow> KeyData" where
  "exampleKeyData proto fpr address v =
     \<lparr> keyProtocol = proto, keyFingerprint = fpr, keyRevoked = False, keyExpired = False,
       keyDisabled = False, keyCanEncrypt = True, keyCanSign = True, keyHasSecret = True,
       keyIsDeVs = False, keyUserIDs = [\<lparr> addrSpec = address, validity = v \<rparr>] \<rparr>"

definition exampleKey :: "Protocol \<Rightarrow> string \<Rightarrow> string \<Rightarrow> Validity \<Rightarrow> Key" where
  "exampleKey proto fpr address v = Some (exampleKeyData proto fpr address v)"

definition expiredKey :: Key where
  "expiredKey = Some ((exampleKeyData OpenPGP ''P9'' ''old@x'' Full)\<lparr>keyExpired := True\<rparr>)"

definition exampleBest :: "string \<Rightarrow> Protocol \<Rightarrow> bool \<Rightarrow> bool \<Rightarrow> Key list" where
  "exampleBest address proto needSecret needEncrypt =
     (if address = ''mixed@x'' \<and> proto = OpenPGP then [exampleKey OpenPGP ''P1'' ''mixed@x'' Ultimate]
      else if address = ''mixed@x'' \<and> proto = CMS then [exampleKey CMS ''S1'' ''mixed@x'' Full]
      else if address = ''pgp@x'' \<and> proto = OpenPGP then [exampleKey OpenPGP ''P2'' ''pgp@x'' Full]
      else if address = ''smime@x'' \<and> proto = CMS then [exampleKey CMS ''S3'' ''smime@x'' Full]
      else if address = ''team@x'' \<and> proto = OpenPGP
        then [exampleKey OpenPGP ''P1'' ''mixed@x'' Ultimate, exampleKey OpenPGP ''P2'' ''pgp@x'' Full]
      else if address = ''oldteam@x'' \<and> proto = OpenPGP
        then [exampleKey OpenPGP ''P1'' ''mixed@x'' Ultimate, expiredKey]
      else if address = ''list@x'' \<and> proto = OpenPGP
        then [exampleKey OpenPGP ''P1'' ''mixed@x'' Ultimate,
              exampleKey OpenPGP ''P4'' ''owner@x'' Ultimate]
      else if address = ''list@x'' \<and> proto = CMS then [exampleKey CMS ''S4'' ''list@x'' Full]
      else [None])"

definition exampleFind :: "string \<Rightarrow> Key" where
  "exampleFind fpr =
     (if fpr = ''P1'' then exampleKey OpenPGP ''P1'' ''mixed@x'' Ultimate
      else if fpr = ''S1'' then exampleKey CMS ''S1'' ''mixed@x'' Full
      else if fpr = ''P2'' then exampleKey OpenPGP ''P2'' ''pgp@x'' Full
      else if fpr = ''S3'' then exampleKey CMS ''S3'' ''smime@x'' Full
      else None)"

text \<open>
  The example normalisation extracts nothing from a string without an \<open>@\<close>, and the
  example case folding lowers the letters A to Z.
\<close>

definition asciiLower :: "string \<Rightarrow> string" where
  "asciiLower str =
     map (\<lambda>c. if CHR ''A'' \<le> c \<and> c \<le> CHR ''Z'' then char_of (of_char c + (32 :: nat)) else c)
       str"

definition exampleEnv :: Env where
  "exampleEnv =
     \<lparr> addrSpecFromString = (\<lambda>a. if CHR ''@'' \<in> set a then a else []),
       toLower = asciiLower,
       findBestByMailBox = exampleBest,
       findByKeyIDOrFingerprint = exampleFind \<rparr>"

subsection \<open>Requests\<close>

text \<open>One recipient, resolved in both protocols and not yet merged.\<close>

definition mergeExample :: Private where
  "mergeExample =
     resolveEnc exampleEnv CMS (resolveEnc exampleEnv OpenPGP
       (addRecipients exampleEnv [''mixed@x''] (newPrivate True False UnknownProtocol [])))"

text \<open>Two recipients that name groups.\<close>

definition groupExample :: Private where
  "groupExample =
     addRecipients exampleEnv [''team@x'', ''oldteam@x''] (newPrivate True False OpenPGP [])"

text \<open>A recipient for whom the store has nothing, beside one it knows.\<close>

definition nobodyExample :: Private where
  "nobodyExample =
     addRecipients exampleEnv [''pgp@x'', ''nobody@x''] (newPrivate True False UnknownProtocol [])"

text \<open>
  The same single recipient, once given together with a string that is no address and
  once alone, and the second request with such a string as the sender.
\<close>

definition errorsExample :: Private where
  "errorsExample =
     addRecipients exampleEnv [''no address'', ''pgp@x''] (newPrivate True False OpenPGP [])"

definition cleanExample :: Private where
  "cleanExample = addRecipients exampleEnv [''pgp@x''] (newPrivate True False OpenPGP [])"

definition noSenderExample :: Private where
  "noSenderExample = setSender exampleEnv ''no address'' cleanExample"

text \<open>
  The request of the test
  \<open>test_openpgp_is_used_if_openpgp_only_and_smime_only_are_both_possible\<close>: encryption
  and signing, mixing disabled, a sender with certificates in both protocols.
\<close>

definition bothExample :: Private where
  "bothExample =
     setSender exampleEnv ''mixed@x''
       (setAllowMixedProtocols False (newPrivate True True UnknownProtocol []))"

text \<open>
  The request of the test
  \<open>test_reports_failure_if_openpgp_is_requested_but_common_overrides_require_smime\<close>:
  OpenPGP is forced, and an override without protocol names an S/MIME certificate.
\<close>

definition forcedExample :: Private where
  "forcedExample =
     setOverrideKeys exampleEnv [(UnknownProtocol, [(''mixed@x'', [''S3''])])]
       (addRecipients exampleEnv [''mixed@x''] (newPrivate True False OpenPGP []))"

text \<open>
  A recipient with an OpenPGP override and an override without protocol, as in the test
  \<open>test_common_overrides_override_protocol_specific_overrides\<close>.
\<close>

definition precedenceExample :: Private where
  "precedenceExample =
     setOverrideKeys exampleEnv
       [(OpenPGP, [(''pgp@x'', [''P1''])]), (UnknownProtocol, [(''pgp@x'', [''P2''])])]
       (addRecipients exampleEnv [''pgp@x''] (newPrivate True False UnknownProtocol []))"

text \<open>One recipient that names a group of certificates issued for other addresses.\<close>

definition listExample :: Private where
  "listExample =
     resolveEnc exampleEnv CMS (resolveEnc exampleEnv OpenPGP
       (addRecipients exampleEnv [''list@x''] (newPrivate True False UnknownProtocol [])))"

text \<open>
  Two requests that only sign: a sender with one certificate, and a sender for whom the
  lookup answers with a certificate and an expired one (OpenPGP) or a null key (CMS).
\<close>

definition signExample :: Private where
  "signExample = setSender exampleEnv ''mixed@x'' (newPrivate False True UnknownProtocol [])"

definition expiredSignExample :: Private where
  "expiredSignExample =
     setSender exampleEnv ''oldteam@x'' (newPrivate False True UnknownProtocol [])"

text \<open>A recipient with an OpenPGP override.\<close>

definition overrideExample :: Private where
  "overrideExample =
     setOverrideKeys exampleEnv [(OpenPGP, [(''pgp@x'', [''P1''])])]
       (addRecipients exampleEnv [''pgp@x''] (newPrivate True False UnknownProtocol []))"

subsection \<open>The validity of a certificate for an address, as the specification words it\<close>

text \<open>
  The specification compares the lists by the validity of their certificates ``with
  respect to that address''. \<open>validityForAddress\<close> follows these words and not the code:
  it is the validity of the certificate's user id for the address, and a certificate
  without a user id for the address has no validity for it (\<open>Unknown\<close>). It is compared
  with \<open>keyValidity\<close>, which is translated from the code.
\<close>

definition validityForAddress :: "Env \<Rightarrow> Key \<Rightarrow> string \<Rightarrow> int" where
  "validityForAddress e key address =
     (case find (\<lambda>uid. toLower e (addrSpec uid) = toLower e address) (userIDs key) of
        Some uid \<Rightarrow> validityInt (validity uid)
      | None \<Rightarrow> validityInt Unknown)"

section \<open>Properties\<close>

lemma map_of_qmapInsert: "map_of (qmapInsert k v m) = (map_of m)(k \<mapsto> v)"
  by (induction m) (auto simp: fun_eq_iff)

lemma keys_qmapInsert: "fst ` set (qmapInsert k v m) = insert k (fst ` set m)"
proof -
  have "dom (map_of (qmapInsert k v m)) = insert k (dom (map_of m))"
    by (simp add: map_of_qmapInsert)
  then show ?thesis
    by (simp add: dom_map_of_conv_image_fst)
qed

lemma map_of_map_entry:
  assumes "\<And>x. fst (f x) = fst x"
  shows "map_of (map f m) k = map_option (\<lambda>v. snd (f (k, v))) (map_of m k)"
proof (induction m)
  case Nil
  show ?case by simp
next
  case (Cons x m)
  have "f x = (fst x, snd (f x))"
    using assms [of x] by (metis prod.collapse)
  then have "map_of (f x # map f m) k
      = (if k = fst x then Some (snd (f x)) else map_of (map f m) k)"
    by (metis map_of_Cons_code(2))
  moreover have "map_of (x # m) k = (if k = fst x then Some (snd x) else map_of m k)"
    by (metis map_of_Cons_code(2) prod.collapse)
  ultimately show ?case
    using Cons.IH by simp
qed

lemma encKeysOf_resolveEnc:
  "encKeysOf (resolveEnc e proto s) a p =
     (if a \<in> fst ` set (mEncKeys s) \<and> p = proto \<and> encKeysOf s a proto = []
      then resolveRecipient e s a proto else encKeysOf s a p)"
proof -
  have "map_of (map (resolveEncEntry e s proto) (mEncKeys s)) a
      = map_option (\<lambda>v. snd (resolveEncEntry e s proto (a, v))) (map_of (mEncKeys s) a)"
    by (rule map_of_map_entry) (simp add: resolveEncEntry_def)
  moreover have "a \<in> fst ` set (mEncKeys s) \<longleftrightarrow> map_of (mEncKeys s) a \<noteq> None"
    by (simp add: map_of_eq_None_iff)
  ultimately show ?thesis
    by (cases "map_of (mEncKeys s) a")
      (auto simp: encKeysOf_def resolveEnc_def qmapValue_def valueOr_def resolveEncEntry_def)
qed

lemma resolveRecipient_cong:
  "mCompliance s' = mCompliance s \<Longrightarrow> mMinimumValidity s' = mMinimumValidity s
   \<Longrightarrow> resolveRecipient e s' a p = resolveRecipient e s a p"
proof -
  assume c: "mCompliance s' = mCompliance s" and m: "mMinimumValidity s' = mMinimumValidity s"
  have acc: "\<And>key addr. isAcceptableEncryptionKey s' key addr = isAcceptableEncryptionKey s key addr"
    by (simp add: isAcceptableEncryptionKey_def c m)
  have grp: "groupUnacceptable s' keys = groupUnacceptable s keys" for keys
    by (induction keys) (simp_all add: acc)
  show ?thesis
    by (simp add: resolveRecipient_def Let_def acc grp)
qed

lemmas example_defs =
  exampleEnv_def exampleBest_def exampleFind_def exampleKey_def exampleKeyData_def
  expiredKey_def newPrivate_def
  setSender_def addRecipients_def addRecipient_def setOverrideKeys_def setOverride_def
  setSigningKeys_def setSigningKey_def setAllowMixedProtocols_def setPreferredProtocol_def
  setMinimumValidity_def

lemmas resolve_defs =
  resolve_def resolveOverrides_def overrideAddress_def overrideProtocol_def overrideKey_def
  pushEncKey_def protocols_def resolveSign_def resolveEnc_def resolveEncEntry_def
  resolveRecipient_def mergeEncryptionKeys_def mergeEntry_def minimumValidity_def
  keyValidity_def asciiLower_def unresolvedRecipients_def removeProtocol_def
  isAcceptableSigningKey_def isAcceptableEncryptionKey_def ValidSigningKey_def
  ValidEncryptionKey_def isNull_def isRevoked_def isExpired_def isDisabled_def canEncrypt_def
  canSign_def hasSecret_def isKeyDeVs_def protocol_def userIDs_def contains_def valueOr_def
  qmapValue_def encKeysOf_def encryptionKeys_def signingKeys_def Let_def

section \<open>The sender as a recipient\<close>

text \<open>
  Claim C10. With encryption enabled, \<open>setSender\<close> with an address that normalises adds
  the normalised address to the recipients and gives it an entry of \<open>mEncKeys\<close> with an
  empty list for CMS and for OpenPGP, so that \<open>resolveEnc\<close> resolves it like any other
  recipient (its slot is what \<open>resolveRecipient\<close> finds for it). With encryption disabled
  the recipients and \<open>mEncKeys\<close> are left as they were.
\<close>

theorem setSender_adds_sender_to_recipients:
  assumes "addrSpecFromString e address \<noteq> []"
  shows "if mEncrypt s then
           addrSpecFromString e address \<in> set (mRecipients (setSender e address s))
           \<and> map_of (mEncKeys (setSender e address s)) (addrSpecFromString e address)
               = Some [CMS \<mapsto> [], OpenPGP \<mapsto> []]
           \<and> (\<forall>proto.
                 encKeysOf (resolveEnc e proto (setSender e address s))
                   (addrSpecFromString e address) proto
                 = resolveRecipient e s (addrSpecFromString e address) proto)
         else mRecipients (setSender e address s) = mRecipients s
              \<and> mEncKeys (setSender e address s) = mEncKeys s"
proof (cases "mEncrypt s")
  case False
  then show ?thesis
    using assms by (simp add: setSender_def addRecipients_def Let_def)
next
  case True
  let ?n = "addrSpecFromString e address"
  let ?s' = "setSender e address s"
  have enc: "mEncKeys ?s' = qmapInsert ?n [CMS \<mapsto> [], OpenPGP \<mapsto> []] (mEncKeys s)"
    and rcp: "mRecipients ?s' = mRecipients s @ [?n]"
    and cmp: "mCompliance ?s' = mCompliance s"
    and mnv: "mMinimumValidity ?s' = mMinimumValidity s"
    using assms True by (simp_all add: setSender_def addRecipients_def addRecipient_def Let_def)
  have slot: "map_of (mEncKeys ?s') ?n = Some [CMS \<mapsto> [], OpenPGP \<mapsto> []]"
    by (simp add: enc map_of_qmapInsert)
  have key: "?n \<in> fst ` set (mEncKeys ?s')"
    by (simp add: enc keys_qmapInsert)
  have empty: "encKeysOf ?s' ?n proto = []" for proto
    by (cases proto) (simp_all add: encKeysOf_def qmapValue_def valueOr_def slot)
  have "encKeysOf (resolveEnc e proto ?s') ?n proto = resolveRecipient e s ?n proto" for proto
    using key empty [of proto] resolveRecipient_cong [OF cmp mnv]
    by (simp add: encKeysOf_resolveEnc)
  then show ?thesis
    using True slot rcp by simp
qed

theorem setSender_adds_sender_to_recipients_witness:
  "addrSpecFromString exampleEnv ''mixed@x'' \<noteq> []
   \<and> ''mixed@x'' \<in> set (mRecipients (setSender exampleEnv ''mixed@x''
                                        (newPrivate True True UnknownProtocol [])))
   \<and> map_of (mEncKeys (setSender exampleEnv ''mixed@x''
                          (newPrivate True True UnknownProtocol []))) ''mixed@x''
       = Some [CMS \<mapsto> [], OpenPGP \<mapsto> []]
   \<and> mEncKeys (setSender exampleEnv ''mixed@x'' (newPrivate False True UnknownProtocol [])) = []"
proof -
  have n: "addrSpecFromString exampleEnv ''mixed@x'' = ''mixed@x''"
    by (simp add: exampleEnv_def)
  have h: "addrSpecFromString exampleEnv ''mixed@x'' \<noteq> []"
    by (simp add: n)
  show ?thesis
    using setSender_adds_sender_to_recipients
            [OF h, of "newPrivate True True UnknownProtocol []"]
          setSender_adds_sender_to_recipients
            [OF h, of "newPrivate False True UnknownProtocol []"]
    by (simp add: n newPrivate_def)
qed

section \<open>Merging by validity\<close>

lemma validityInt_range: "0 \<le> validityInt v \<and> validityInt v \<le> 5"
  by (cases v) simp_all

lemma keyValidityLoop_range:
  "0 \<le> acc \<Longrightarrow> acc \<le> 5 \<Longrightarrow> 0 \<le> keyValidityLoop e uids a acc \<and> keyValidityLoop e uids a acc \<le> 5"
proof (induction uids arbitrary: acc)
  case Nil
  then show ?case by simp
next
  case (Cons uid uids)
  have r: "0 \<le> validityInt (validity uid) \<and> validityInt (validity uid) \<le> 5"
    by (rule validityInt_range)
  show ?case
  proof (cases "toLower e (addrSpec uid) = toLower e a")
    case True
    then show ?thesis using r by simp
  next
    case False
    have "0 \<le> max acc (validityInt (validity uid))" "max acc (validityInt (validity uid)) \<le> 5"
      using Cons.prems r by auto
    then show ?thesis
      using False Cons.IH by simp
  qed
qed

lemma keyValidity_range: "0 \<le> keyValidity e key a \<and> keyValidity e key a \<le> 5"
  unfolding keyValidity_def by (rule keyValidityLoop_range) simp_all

lemma Min_insert_min:
  "finite A \<Longrightarrow> Min (insert (min (start::int) x) A) = Min (insert start (insert x A))"
  using Min_insert by fastforce

lemma foldl_min_Min:
  "foldl (\<lambda>v key. min v (f key)) (start :: int) keys = Min (insert start (f ` set keys))"
proof (induction keys arbitrary: start)
  case Nil
  show ?case by simp
next
  case (Cons key keys)
  have "Min (insert (min start (f key)) (f ` set keys))
      = Min (insert start (insert (f key) (f ` set keys)))"
    by (rule Min_insert_min) simp
  then show ?case
    using Cons.IH [of "min start (f key)"] by simp
qed

lemma minimumValidity_Min:
  assumes "keys \<noteq> []"
  shows "minimumValidity e keys a = Min ((\<lambda>key. keyValidity e key a) ` set keys)"
proof -
  let ?V = "(\<lambda>key. keyValidity e key a) ` set keys"
  have ne: "?V \<noteq> {}" and fin: "finite ?V"
    using assms by simp_all
  have le5: "Min ?V \<le> 5"
  proof -
    have "Min ?V \<in> ?V" using fin ne by (rule Min_in)
    then obtain key where "Min ?V = keyValidity e key a" by auto
    then show ?thesis using keyValidity_range [of e key a] by simp
  qed
  have "Min (insert 6 ?V) = min 6 (Min ?V)"
    using fin ne by (rule Min_insert)
  then have "Min (insert 6 ?V) = Min ?V"
    using le5 by simp
  then show ?thesis
    using le5 by (simp add: minimumValidity_def foldl_min_Min Let_def)
qed

lemma encKeysOf_mergeEncryptionKeys:
  "encKeysOf (mergeEncryptionKeys e s) a p =
     (case map_of (mEncKeys s) a of None \<Rightarrow> []
      | Some m \<Rightarrow> valueOr (snd (mergeEntry e (mPreferredProtocol s) (a, m))) p)"
proof -
  have "map_of (map (mergeEntry e (mPreferredProtocol s)) (mEncKeys s)) a
      = map_option (\<lambda>v. snd (mergeEntry e (mPreferredProtocol s) (a, v))) (map_of (mEncKeys s) a)"
    by (rule map_of_map_entry) (simp add: mergeEntry_def Let_def)
  then show ?thesis
    by (cases "map_of (mEncKeys s) a")
      (simp_all add: encKeysOf_def mergeEncryptionKeys_def qmapValue_def valueOr_def)
qed

lemma mergeEncryptionKeys_choice:
  assumes unknown: "encKeysOf s a UnknownProtocol = []"
    and pgp: "encKeysOf s a OpenPGP \<noteq> []"
    and cms: "encKeysOf s a CMS \<noteq> []"
  shows "minimumValidity e (encKeysOf s a OpenPGP) a
           = Min ((\<lambda>key. keyValidity e key a) ` set (encKeysOf s a OpenPGP))
       \<and> minimumValidity e (encKeysOf s a CMS) a
           = Min ((\<lambda>key. keyValidity e key a) ` set (encKeysOf s a CMS))
       \<and> encKeysOf (mergeEncryptionKeys e s) a UnknownProtocol =
           (let minPGP = Min ((\<lambda>key. keyValidity e key a) ` set (encKeysOf s a OpenPGP));
                minCMS = Min ((\<lambda>key. keyValidity e key a) ` set (encKeysOf s a CMS))
            in if minPGP > minCMS then encKeysOf s a OpenPGP
               else if minCMS > minPGP then encKeysOf s a CMS
               else if mPreferredProtocol s = CMS then encKeysOf s a CMS
               else encKeysOf s a OpenPGP)"
proof -
  obtain m where m: "map_of (mEncKeys s) a = Some m"
    using pgp
    by (cases "map_of (mEncKeys s) a") (simp_all add: encKeysOf_def qmapValue_def valueOr_def)
  have v: "valueOr m UnknownProtocol = []" "valueOr m OpenPGP \<noteq> []" "valueOr m CMS \<noteq> []"
    and eq: "encKeysOf s a OpenPGP = valueOr m OpenPGP" "encKeysOf s a CMS = valueOr m CMS"
    using unknown pgp cms by (simp_all add: encKeysOf_def qmapValue_def m)
  have "encKeysOf (mergeEncryptionKeys e s) a UnknownProtocol
      = valueOr (snd (mergeEntry e (mPreferredProtocol s) (a, m))) UnknownProtocol"
    by (simp add: encKeysOf_mergeEncryptionKeys m)
  also have "\<dots> =
      (if minimumValidity e (valueOr m OpenPGP) a > minimumValidity e (valueOr m CMS) a
       then valueOr m OpenPGP
       else if minimumValidity e (valueOr m CMS) a > minimumValidity e (valueOr m OpenPGP) a
       then valueOr m CMS
       else if mPreferredProtocol s = CMS then valueOr m CMS
       else valueOr m OpenPGP)"
    using v by (auto simp: mergeEntry_def Let_def valueOr_def contains_def split: option.splits)
  finally show ?thesis
    using minimumValidity_Min [OF pgp] minimumValidity_Min [OF cms] by (simp add: eq Let_def)
qed

lemma Max_insert_max:
  "finite A \<Longrightarrow> Max (insert (max (start::int) x) A) = Max (insert start (insert x A))"
  using Max_insert by fastforce

lemma keyValidityLoop_find:
  "keyValidityLoop e uids a acc =
     (case find (\<lambda>uid. toLower e (addrSpec uid) = toLower e a) uids of
        Some uid \<Rightarrow> validityInt (validity uid)
      | None \<Rightarrow> Max (insert acc ((\<lambda>uid. validityInt (validity uid)) ` set uids)))"
proof (induction uids arbitrary: acc)
  case Nil
  show ?case by simp
next
  case (Cons uid uids)
  let ?P = "\<lambda>uid. toLower e (addrSpec uid) = toLower e a"
  let ?S = "(\<lambda>uid. validityInt (validity uid)) ` set uids"
  let ?v = "validityInt (validity uid)"
  show ?case
  proof (cases "?P uid")
    case True
    then show ?thesis by simp
  next
    case False
    have mx: "Max (insert (max acc ?v) ?S) = Max (insert acc (insert ?v ?S))"
      by (rule Max_insert_max) simp
    have "keyValidityLoop e (uid # uids) a acc = keyValidityLoop e uids a (max acc ?v)"
      using False by simp
    also have "\<dots> = (case find ?P uids of Some uid \<Rightarrow> validityInt (validity uid)
                       | None \<Rightarrow> Max (insert (max acc ?v) ?S))"
      by (rule Cons.IH)
    also have "\<dots> = (case find ?P uids of Some uid \<Rightarrow> validityInt (validity uid)
                       | None \<Rightarrow> Max (insert acc (insert ?v ?S)))"
      by (simp only: mx)
    also have "\<dots> = (case find ?P (uid # uids) of Some uid \<Rightarrow> validityInt (validity uid)
                       | None \<Rightarrow> Max (insert acc
                           ((\<lambda>uid. validityInt (validity uid)) ` set (uid # uids))))"
      using False by (simp split: option.split)
    finally show ?thesis .
  qed
qed

lemma keyValidity_find:
  "keyValidity e key a =
     (case find (\<lambda>uid. toLower e (addrSpec uid) = toLower e a) (userIDs key) of
        Some uid \<Rightarrow> validityInt (validity uid)
      | None \<Rightarrow> Max (insert (validityInt Unknown)
                      ((\<lambda>uid. validityInt (validity uid)) ` set (userIDs key))))"
  unfolding keyValidity_def by (rule keyValidityLoop_find)

text \<open>
  Claim C4, as amended. For an address whose \<open>UnknownProtocol\<close> slot is empty and whose
  OpenPGP and CMS lists are both non-empty, \<open>mergeEncryptionKeys\<close> puts into the
  \<open>UnknownProtocol\<close> slot the list with the strictly higher minimum validity; on equal
  minima it takes the CMS list if CMS is the preferred protocol and the OpenPGP list
  otherwise (OpenPGP preferred, or no preference). The minimum validity of a list is the
  least \<open>keyValidity\<close> of its certificates, and the \<open>keyValidity\<close> of a certificate for the
  address is the validity of its first user id whose address equals the address up to
  case; for a certificate without such a user id it is the greatest validity of all its
  user ids, which belong to other addresses.
\<close>

theorem merge_picks_higher_minimum_key_validity:
  assumes unknown: "encKeysOf s a UnknownProtocol = []"
    and pgp: "encKeysOf s a OpenPGP \<noteq> []"
    and cms: "encKeysOf s a CMS \<noteq> []"
  shows "encKeysOf (mergeEncryptionKeys e s) a UnknownProtocol =
           (let minPGP = Min ((\<lambda>key. keyValidity e key a) ` set (encKeysOf s a OpenPGP));
                minCMS = Min ((\<lambda>key. keyValidity e key a) ` set (encKeysOf s a CMS))
            in if minPGP > minCMS then encKeysOf s a OpenPGP
               else if minCMS > minPGP then encKeysOf s a CMS
               else if mPreferredProtocol s = CMS then encKeysOf s a CMS
               else encKeysOf s a OpenPGP)
       \<and> minimumValidity e (encKeysOf s a OpenPGP) a
           = Min ((\<lambda>key. keyValidity e key a) ` set (encKeysOf s a OpenPGP))
       \<and> minimumValidity e (encKeysOf s a CMS) a
           = Min ((\<lambda>key. keyValidity e key a) ` set (encKeysOf s a CMS))
       \<and> (\<forall>key. keyValidity e key a =
             (case find (\<lambda>uid. toLower e (addrSpec uid) = toLower e a) (userIDs key) of
                Some uid \<Rightarrow> validityInt (validity uid)
              | None \<Rightarrow> Max (insert (validityInt Unknown)
                              ((\<lambda>uid. validityInt (validity uid)) ` set (userIDs key)))))"
  using mergeEncryptionKeys_choice [OF unknown pgp cms, of e]
    keyValidity_find [of e _ a]
  by blast

text \<open>
  The claim as stated fails: it measures every certificate with respect to the address.
  The recipient \<open>list@x\<close> has an S/MIME certificate of validity \<open>Full\<close> for \<open>list@x\<close>, and
  the OpenPGP lookup answers with a group of two certificates that have no user id for
  \<open>list@x\<close>. With respect to the address the S/MIME list has the strictly higher minimum,
  yet the merge takes the OpenPGP group, whose certificates are fully valid for other
  addresses.
\<close>

theorem merge_by_address_validity_counterexample:
  "encKeysOf listExample ''list@x'' UnknownProtocol = []
   \<and> encKeysOf listExample ''list@x'' OpenPGP
       = [exampleKey OpenPGP ''P1'' ''mixed@x'' Ultimate,
          exampleKey OpenPGP ''P4'' ''owner@x'' Ultimate]
   \<and> encKeysOf listExample ''list@x'' CMS = [exampleKey CMS ''S4'' ''list@x'' Full]
   \<and> validityForAddress exampleEnv (exampleKey OpenPGP ''P1'' ''mixed@x'' Ultimate) ''list@x''
       = validityInt Unknown
   \<and> validityForAddress exampleEnv (exampleKey OpenPGP ''P4'' ''owner@x'' Ultimate) ''list@x''
       = validityInt Unknown
   \<and> validityForAddress exampleEnv (exampleKey CMS ''S4'' ''list@x'' Full) ''list@x''
       = validityInt Full
   \<and> encKeysOf (mergeEncryptionKeys exampleEnv listExample) ''list@x'' UnknownProtocol
       = [exampleKey OpenPGP ''P1'' ''mixed@x'' Ultimate,
          exampleKey OpenPGP ''P4'' ''owner@x'' Ultimate]"
  by code_simp

theorem merge_picks_higher_minimum_key_validity_witness:
  "encKeysOf listExample ''list@x'' UnknownProtocol = []
   \<and> encKeysOf listExample ''list@x'' OpenPGP
       = [exampleKey OpenPGP ''P1'' ''mixed@x'' Ultimate,
          exampleKey OpenPGP ''P4'' ''owner@x'' Ultimate]
   \<and> encKeysOf listExample ''list@x'' CMS = [exampleKey CMS ''S4'' ''list@x'' Full]
   \<and> keyValidity exampleEnv (exampleKey OpenPGP ''P1'' ''mixed@x'' Ultimate) ''list@x'' = 5
   \<and> keyValidity exampleEnv (exampleKey OpenPGP ''P4'' ''owner@x'' Ultimate) ''list@x'' = 5
   \<and> keyValidity exampleEnv (exampleKey CMS ''S4'' ''list@x'' Full) ''list@x'' = 4
   \<and> encKeysOf (mergeEncryptionKeys exampleEnv listExample) ''list@x'' UnknownProtocol
       = [exampleKey OpenPGP ''P1'' ''mixed@x'' Ultimate,
          exampleKey OpenPGP ''P4'' ''owner@x'' Ultimate]
   \<and> encKeysOf mergeExample ''mixed@x'' UnknownProtocol = []
   \<and> encKeysOf mergeExample ''mixed@x'' OpenPGP = [exampleKey OpenPGP ''P1'' ''mixed@x'' Ultimate]
   \<and> encKeysOf mergeExample ''mixed@x'' CMS = [exampleKey CMS ''S1'' ''mixed@x'' Full]
   \<and> keyValidity exampleEnv (exampleKey OpenPGP ''P1'' ''mixed@x'' Ultimate) ''mixed@x'' = 5
   \<and> keyValidity exampleEnv (exampleKey CMS ''S1'' ''mixed@x'' Full) ''mixed@x'' = 4
   \<and> encKeysOf (mergeEncryptionKeys exampleEnv mergeExample) ''mixed@x'' UnknownProtocol
       = [exampleKey OpenPGP ''P1'' ''mixed@x'' Ultimate]"
proof -
  have lu: "encKeysOf listExample ''list@x'' UnknownProtocol = []"
    and lp: "encKeysOf listExample ''list@x'' OpenPGP
      = [exampleKey OpenPGP ''P1'' ''mixed@x'' Ultimate,
         exampleKey OpenPGP ''P4'' ''owner@x'' Ultimate]"
    and lc: "encKeysOf listExample ''list@x'' CMS = [exampleKey CMS ''S4'' ''list@x'' Full]"
    and mu: "encKeysOf mergeExample ''mixed@x'' UnknownProtocol = []"
    and mp: "encKeysOf mergeExample ''mixed@x'' OpenPGP
      = [exampleKey OpenPGP ''P1'' ''mixed@x'' Ultimate]"
    and mc: "encKeysOf mergeExample ''mixed@x'' CMS = [exampleKey CMS ''S1'' ''mixed@x'' Full]"
    by code_simp+
  have kv: "keyValidity exampleEnv (exampleKey OpenPGP ''P1'' ''mixed@x'' Ultimate) ''list@x'' = 5"
    "keyValidity exampleEnv (exampleKey OpenPGP ''P4'' ''owner@x'' Ultimate) ''list@x'' = 5"
    "keyValidity exampleEnv (exampleKey CMS ''S4'' ''list@x'' Full) ''list@x'' = 4"
    "keyValidity exampleEnv (exampleKey OpenPGP ''P1'' ''mixed@x'' Ultimate) ''mixed@x'' = 5"
    "keyValidity exampleEnv (exampleKey CMS ''S1'' ''mixed@x'' Full) ''mixed@x'' = 4"
    by code_simp+
  have lp': "encKeysOf listExample ''list@x'' OpenPGP \<noteq> []"
    and lc': "encKeysOf listExample ''list@x'' CMS \<noteq> []"
    and mp': "encKeysOf mergeExample ''mixed@x'' OpenPGP \<noteq> []"
    and mc': "encKeysOf mergeExample ''mixed@x'' CMS \<noteq> []"
    by (simp_all add: lp lc mp mc)
  note l = merge_picks_higher_minimum_key_validity [OF lu lp' lc', of exampleEnv, THEN conjunct1]
  note m = merge_picks_higher_minimum_key_validity [OF mu mp' mc', of exampleEnv, THEN conjunct1]
  have rl: "encKeysOf (mergeEncryptionKeys exampleEnv listExample) ''list@x'' UnknownProtocol
      = [exampleKey OpenPGP ''P1'' ''mixed@x'' Ultimate,
         exampleKey OpenPGP ''P4'' ''owner@x'' Ultimate]"
    unfolding l lp lc by (simp add: kv)
  have rm: "encKeysOf (mergeEncryptionKeys exampleEnv mergeExample) ''mixed@x'' UnknownProtocol
      = [exampleKey OpenPGP ''P1'' ''mixed@x'' Ultimate]"
    unfolding m mp mc by (simp add: kv)
  show ?thesis
    using lu lp lc kv rl mu mp mc rm by blast
qed

section \<open>Signing certificates\<close>

lemma signingKeysPass_iff:
  "signingKeysPass s keys \<longleftrightarrow> (\<forall>key \<in> set keys. isNull key \<or> isAcceptableSigningKey s key)"
  by (induction keys) auto

lemma null_key_not_signing: "isNull key \<Longrightarrow> \<not> isAcceptableSigningKey s key"
  by (simp add: isAcceptableSigningKey_def ValidSigningKey_def)

lemma resolveSign_store_iff:
  assumes "\<not> contains (mSigKeys s) proto"
  shows "resolveSign e proto s =
           (if (\<forall>key \<in> set (findBestByMailBox e (mSender s) proto True False).
                  isNull key \<or> isAcceptableSigningKey s key)
               \<and> findBestByMailBox e (mSender s) proto True False \<noteq> []
               \<and> \<not> isNull (hd (findBestByMailBox e (mSender s) proto True False))
            then s\<lparr>mSigKeys := (mSigKeys s)(proto \<mapsto> findBestByMailBox e (mSender s) proto True False)\<rparr>
            else s)"
  using assms by (auto simp: resolveSign_def Let_def signingKeysPass_iff)

text \<open>
  Claim C7. For a protocol whose signing slot the caller has not set, and an answer of
  the lookup for the sender that consists of certificates only (or begins with a null
  key, the answer the resolver takes as ``nothing found''): if a candidate of the answer
  fails \<open>isAcceptableSigningKey\<close>, the slot stays unset; the slot is set only if no
  candidate fails and the answer is not empty, and then to the whole answer. In every
  other case \<open>resolveSign\<close> changes nothing.
\<close>

theorem resolveSign_stores_all_or_nothing:
  assumes unset: "\<not> contains (mSigKeys s) proto"
    and certificates:
      "(\<forall>key \<in> set (findBestByMailBox e (mSender s) proto True False). \<not> isNull key)
       \<or> (findBestByMailBox e (mSender s) proto True False \<noteq> []
           \<and> isNull (hd (findBestByMailBox e (mSender s) proto True False)))"
  shows "((\<exists>key \<in> set (findBestByMailBox e (mSender s) proto True False).
             \<not> isAcceptableSigningKey s key)
          \<longrightarrow> mSigKeys (resolveSign e proto s) proto = None)
       \<and> (mSigKeys (resolveSign e proto s) proto \<noteq> None
          \<longrightarrow> (\<forall>key \<in> set (findBestByMailBox e (mSender s) proto True False).
                  isAcceptableSigningKey s key)
              \<and> findBestByMailBox e (mSender s) proto True False \<noteq> []
              \<and> mSigKeys (resolveSign e proto s) proto
                  = Some (findBestByMailBox e (mSender s) proto True False))
       \<and> resolveSign e proto s =
           (if (\<forall>key \<in> set (findBestByMailBox e (mSender s) proto True False).
                  isAcceptableSigningKey s key)
               \<and> findBestByMailBox e (mSender s) proto True False \<noteq> []
            then s\<lparr>mSigKeys :=
                     (mSigKeys s)(proto \<mapsto> findBestByMailBox e (mSender s) proto True False)\<rparr>
            else s)"
proof -
  let ?keys = "findBestByMailBox e (mSender s) proto True False"
  have none: "mSigKeys s proto = None"
    using unset by (simp add: contains_def split: option.splits)
  have cond: "(\<forall>key \<in> set ?keys. isNull key \<or> isAcceptableSigningKey s key)
        \<and> ?keys \<noteq> [] \<and> \<not> isNull (hd ?keys)
      \<longleftrightarrow> (\<forall>key \<in> set ?keys. isAcceptableSigningKey s key) \<and> ?keys \<noteq> []"
  proof (cases "\<forall>key \<in> set ?keys. \<not> isNull key")
    case True
    then show ?thesis
      by (cases ?keys) auto
  next
    case False
    then have hd: "?keys \<noteq> []" "isNull (hd ?keys)"
      using certificates by auto
    then have "hd ?keys \<in> set ?keys"
      by simp
    then have "\<not> (\<forall>key \<in> set ?keys. isAcceptableSigningKey s key)"
      using hd(2) null_key_not_signing by blast
    then show ?thesis
      using hd by simp
  qed
  have eq: "resolveSign e proto s =
      (if (\<forall>key \<in> set ?keys. isAcceptableSigningKey s key) \<and> ?keys \<noteq> []
       then s\<lparr>mSigKeys := (mSigKeys s)(proto \<mapsto> ?keys)\<rparr> else s)"
    using resolveSign_store_iff [OF unset, of e] cond by simp
  show ?thesis
    using none by (simp add: eq)
qed

theorem resolveSign_stores_all_or_nothing_witness:
  "\<not> contains (mSigKeys signExample) OpenPGP
   \<and> findBestByMailBox exampleEnv (mSender signExample) OpenPGP True False
       = [exampleKey OpenPGP ''P1'' ''mixed@x'' Ultimate]
   \<and> mSigKeys (resolveSign exampleEnv OpenPGP signExample) OpenPGP
       = Some [exampleKey OpenPGP ''P1'' ''mixed@x'' Ultimate]
   \<and> \<not> contains (mSigKeys expiredSignExample) OpenPGP
   \<and> findBestByMailBox exampleEnv (mSender expiredSignExample) OpenPGP True False
       = [exampleKey OpenPGP ''P1'' ''mixed@x'' Ultimate, expiredKey]
   \<and> \<not> isAcceptableSigningKey expiredSignExample expiredKey
   \<and> mSigKeys (resolveSign exampleEnv OpenPGP expiredSignExample) OpenPGP = None
   \<and> \<not> contains (mSigKeys expiredSignExample) CMS
   \<and> findBestByMailBox exampleEnv (mSender expiredSignExample) CMS True False = [None]
   \<and> mSigKeys (resolveSign exampleEnv CMS expiredSignExample) CMS = None"
proof -
  have s1: "mSender signExample = ''mixed@x''" "mSigKeys signExample = Map.empty"
    "mCompliance signExample = []"
    and s2: "mSender expiredSignExample = ''oldteam@x''" "mSigKeys expiredSignExample = Map.empty"
    "mCompliance expiredSignExample = []"
    by (simp_all add: signExample_def expiredSignExample_def example_defs Let_def)
  have k1: "findBestByMailBox exampleEnv (mSender signExample) OpenPGP True False
      = [exampleKey OpenPGP ''P1'' ''mixed@x'' Ultimate]"
    and k2: "findBestByMailBox exampleEnv (mSender expiredSignExample) OpenPGP True False
      = [exampleKey OpenPGP ''P1'' ''mixed@x'' Ultimate, expiredKey]"
    and k3: "findBestByMailBox exampleEnv (mSender expiredSignExample) CMS True False = [None]"
    by (simp_all add: s1 s2 exampleEnv_def exampleBest_def)
  have u1: "\<not> contains (mSigKeys signExample) OpenPGP"
    and u2: "\<not> contains (mSigKeys expiredSignExample) OpenPGP"
    and u3: "\<not> contains (mSigKeys expiredSignExample) CMS"
    by (simp_all add: s1 s2 contains_def)
  have n: "isNull None" "\<not> isNull (exampleKey OpenPGP ''P1'' ''mixed@x'' Ultimate)"
    "\<not> isNull expiredKey"
    by (simp_all add: isNull_def exampleKey_def expiredKey_def)
  have c1: "(\<forall>key \<in> set (findBestByMailBox exampleEnv (mSender signExample) OpenPGP True False).
                \<not> isNull key)
       \<or> (findBestByMailBox exampleEnv (mSender signExample) OpenPGP True False \<noteq> []
           \<and> isNull (hd (findBestByMailBox exampleEnv (mSender signExample) OpenPGP True False)))"
    and c2: "(\<forall>key \<in> set (findBestByMailBox exampleEnv (mSender expiredSignExample) OpenPGP True False).
                \<not> isNull key)
       \<or> (findBestByMailBox exampleEnv (mSender expiredSignExample) OpenPGP True False \<noteq> []
           \<and> isNull (hd (findBestByMailBox exampleEnv (mSender expiredSignExample) OpenPGP True False)))"
    and c3: "(\<forall>key \<in> set (findBestByMailBox exampleEnv (mSender expiredSignExample) CMS True False).
                \<not> isNull key)
       \<or> (findBestByMailBox exampleEnv (mSender expiredSignExample) CMS True False \<noteq> []
           \<and> isNull (hd (findBestByMailBox exampleEnv (mSender expiredSignExample) CMS True False)))"
    by (simp_all add: k1 k2 k3 n)
  have acc: "isAcceptableSigningKey signExample (exampleKey OpenPGP ''P1'' ''mixed@x'' Ultimate)"
    "\<not> isAcceptableSigningKey expiredSignExample expiredKey"
    "\<not> isAcceptableSigningKey expiredSignExample None"
    by (simp_all add: isAcceptableSigningKey_def ValidSigningKey_def s1 s2 isNull_def
        isRevoked_def isExpired_def isDisabled_def canSign_def hasSecret_def exampleKey_def
        exampleKeyData_def expiredKey_def)
  note t1 = resolveSign_stores_all_or_nothing [OF u1 c1]
  note t2 = resolveSign_stores_all_or_nothing [OF u2 c2]
  note t3 = resolveSign_stores_all_or_nothing [OF u3 c3]
  have r1: "mSigKeys (resolveSign exampleEnv OpenPGP signExample) OpenPGP
      = Some [exampleKey OpenPGP ''P1'' ''mixed@x'' Ultimate]"
    unfolding t1 [THEN conjunct2, THEN conjunct2] k1 using acc(1) by simp
  have r2: "mSigKeys (resolveSign exampleEnv OpenPGP expiredSignExample) OpenPGP = None"
    using t2 [THEN conjunct1] acc(2) unfolding k2 by simp
  have r3: "mSigKeys (resolveSign exampleEnv CMS expiredSignExample) CMS = None"
    using t3 [THEN conjunct1] acc(3) unfolding k3 by simp
  show ?thesis
    using u1 u2 u3 k1 k2 k3 acc(2) r1 r2 r3 by blast
qed

section \<open>Groups of encryption certificates\<close>

lemma groupUnacceptable_iff:
  "groupUnacceptable s keys \<longleftrightarrow> (\<exists>key \<in> set keys. \<not> isAcceptableEncryptionKey s key [])"
  by (induction keys) simp_all

lemma null_key_unacceptable: "isNull key \<Longrightarrow> \<not> isAcceptableEncryptionKey s key address"
  by (simp add: isAcceptableEncryptionKey_def ValidEncryptionKey_def)

lemma isAcceptableEncryptionKey_no_address:
  "isAcceptableEncryptionKey s key [] \<longleftrightarrow>
     \<not> isNull key \<and> \<not> isRevoked key \<and> \<not> isExpired key \<and> \<not> isDisabled key \<and> canEncrypt key
     \<and> (mCompliance s \<noteq> ''de-vs'' \<or> isKeyDeVs key)"
  by (auto simp: isAcceptableEncryptionKey_def ValidEncryptionKey_def)

lemma resolveRecipient_group:
  assumes "2 \<le> length (findBestByMailBox e a proto False True)"
  shows "resolveRecipient e s a proto =
           (if \<forall>key \<in> set (findBestByMailBox e a proto False True).
                 isAcceptableEncryptionKey s key []
            then findBestByMailBox e a proto False True else [])"
proof -
  let ?keys = "findBestByMailBox e a proto False True"
  have ne: "?keys \<noteq> []" and len: "length ?keys \<noteq> 1"
    using assms by auto
  have hd_in: "hd ?keys \<in> set ?keys"
    using ne by simp
  show ?thesis
  proof (cases "isNull (hd ?keys)")
    case True
    then have "\<not> isAcceptableEncryptionKey s (hd ?keys) []"
      by (rule null_key_unacceptable)
    then have "\<not> (\<forall>key \<in> set ?keys. isAcceptableEncryptionKey s key [])"
      using hd_in by blast
    with True show ?thesis
      by (auto simp: resolveRecipient_def Let_def)
  next
    case False
    then show ?thesis
      using ne len by (simp add: resolveRecipient_def Let_def groupUnacceptable_iff)
  qed
qed

text \<open>
  Claim C6. When the encryption lookup for an address returns two or more certificates,
  \<open>resolveRecipient\<close> returns the whole group if every member passes the test that does
  not look at the address (not null, not revoked, not expired, not disabled, able to
  encrypt, and de-vs compliant when the compliance mode is de-vs; no validity check), and
  the empty list if any member fails: never a proper part of the group. \<open>resolveEnc\<close>
  stores exactly this result in an empty slot of the address, so a rejected group leaves
  the slot empty.
\<close>

theorem group_is_taken_whole_or_rejected:
  assumes "2 \<le> length (findBestByMailBox e a proto False True)"
  shows "resolveRecipient e s a proto =
           (if \<forall>key \<in> set (findBestByMailBox e a proto False True).
                 \<not> isNull key \<and> \<not> isRevoked key \<and> \<not> isExpired key \<and> \<not> isDisabled key
                 \<and> canEncrypt key \<and> (mCompliance s \<noteq> ''de-vs'' \<or> isKeyDeVs key)
            then findBestByMailBox e a proto False True else [])
       \<and> encKeysOf (resolveEnc e proto s) a proto =
           (if a \<in> fst ` set (mEncKeys s) \<and> encKeysOf s a proto = []
            then resolveRecipient e s a proto else encKeysOf s a proto)"
  using resolveRecipient_group [OF assms, of s]
  by (simp add: isAcceptableEncryptionKey_no_address encKeysOf_resolveEnc)

theorem group_is_taken_whole_or_rejected_witness:
  "2 \<le> length (findBestByMailBox exampleEnv ''team@x'' OpenPGP False True)
   \<and> 2 \<le> length (findBestByMailBox exampleEnv ''oldteam@x'' OpenPGP False True)
   \<and> findBestByMailBox exampleEnv ''oldteam@x'' OpenPGP False True
       = [exampleKey OpenPGP ''P1'' ''mixed@x'' Ultimate, expiredKey]
   \<and> encKeysOf (resolveEnc exampleEnv OpenPGP groupExample) ''team@x'' OpenPGP
       = [exampleKey OpenPGP ''P1'' ''mixed@x'' Ultimate, exampleKey OpenPGP ''P2'' ''pgp@x'' Full]
   \<and> encKeysOf (resolveEnc exampleEnv OpenPGP groupExample) ''oldteam@x'' OpenPGP = []"
proof -
  have t: "2 \<le> length (findBestByMailBox exampleEnv ''team@x'' OpenPGP False True)"
    and b: "2 \<le> length (findBestByMailBox exampleEnv ''oldteam@x'' OpenPGP False True)"
    by (simp_all add: exampleEnv_def exampleBest_def)
  have k: "mEncKeys groupExample =
      [(''oldteam@x'', [CMS \<mapsto> [], OpenPGP \<mapsto> []]), (''team@x'', [CMS \<mapsto> [], OpenPGP \<mapsto> []])]"
    by (simp add: groupExample_def example_defs Let_def)
  have e: "encKeysOf groupExample ''team@x'' OpenPGP = []"
    "encKeysOf groupExample ''oldteam@x'' OpenPGP = []"
    by (simp_all add: encKeysOf_def qmapValue_def valueOr_def k)
  have c: "mCompliance groupExample = []"
    by (simp add: groupExample_def example_defs Let_def)
  show ?thesis
    using group_is_taken_whole_or_rejected [OF t, of groupExample]
      group_is_taken_whole_or_rejected [OF b, of groupExample]
    by (simp add: e k c exampleEnv_def exampleBest_def exampleKey_def exampleKeyData_def
        expiredKey_def isNull_def isRevoked_def isExpired_def isDisabled_def canEncrypt_def)
qed

section \<open>Recipients without a certificate\<close>

subsection \<open>What each step changes\<close>

lemma overrideAddress_frame: "\<exists>m. overrideAddress e entry s = s\<lparr>mEncKeys := m\<rparr>"
proof (cases "fst entry \<in> set (mRecipients s)")
  case True
  then show ?thesis by (auto simp: overrideAddress_def)
next
  case False
  then have "overrideAddress e entry s = s\<lparr>mEncKeys := mEncKeys s\<rparr>"
    by (simp add: overrideAddress_def)
  then show ?thesis by blast
qed

lemma fold_overrideAddress_frame: "\<exists>m. fold (overrideAddress e) entries s = s\<lparr>mEncKeys := m\<rparr>"
proof (induction entries arbitrary: s)
  case Nil
  have "s = s\<lparr>mEncKeys := mEncKeys s\<rparr>" by simp
  then show ?case by (metis fold_simps(1))
next
  case (Cons entry entries)
  obtain m where m: "overrideAddress e entry s = s\<lparr>mEncKeys := m\<rparr>"
    using overrideAddress_frame by blast
  obtain m' where "fold (overrideAddress e) entries (s\<lparr>mEncKeys := m\<rparr>) = s\<lparr>mEncKeys := m\<rparr>\<lparr>mEncKeys := m'\<rparr>"
    using Cons.IH by blast
  then have "fold (overrideAddress e) (entry # entries) s = s\<lparr>mEncKeys := m'\<rparr>"
    by (simp add: m)
  then show ?case by blast
qed

lemma resolveOverrides_frame: "\<exists>m. resolveOverrides e s = s\<lparr>mEncKeys := m\<rparr>"
proof (cases "mEncrypt s")
  case True
  then show ?thesis
    using fold_overrideAddress_frame [of e "mOverrides s" s] by (simp add: resolveOverrides_def)
next
  case False
  then have "resolveOverrides e s = s\<lparr>mEncKeys := mEncKeys s\<rparr>"
    by (simp add: resolveOverrides_def)
  then show ?thesis by blast
qed

lemma resolveSign_mEncKeys [simp]: "mEncKeys (resolveSign e proto s) = mEncKeys s"
  and resolveSign_mCompliance [simp]: "mCompliance (resolveSign e proto s) = mCompliance s"
  and resolveSign_mMinimumValidity [simp]:
    "mMinimumValidity (resolveSign e proto s) = mMinimumValidity s"
  and resolveSign_mFormat [simp]: "mFormat (resolveSign e proto s) = mFormat s"
  and resolveSign_mSign [simp]: "mSign (resolveSign e proto s) = mSign s"
  by (simp_all add: resolveSign_def Let_def)

lemma resolveSign_encKeysOf [simp]: "encKeysOf (resolveSign e proto s) a p = encKeysOf s a p"
  by (simp add: encKeysOf_def)

lemma keys_pushEncKey: "fst ` set m \<subseteq> fst ` set (pushEncKey a fmt key m)"
  by (auto simp: pushEncKey_def Let_def keys_qmapInsert)

lemma keys_fold_overrideKey:
  "fst ` set m \<subseteq> fst ` set (fold (overrideKey e a proto) fprs m)"
proof (induction fprs arbitrary: m)
  case Nil
  show ?case by simp
next
  case (Cons fpr fprs)
  have "fst ` set m \<subseteq> fst ` set (overrideKey e a proto fpr m)"
    using keys_pushEncKey by (auto simp: overrideKey_def Let_def)
  then show ?case
    using Cons.IH [of "overrideKey e a proto fpr m"] by auto
qed

lemma keys_overrideProtocol:
  "fst ` set m \<subseteq> fst ` set (overrideProtocol e fmt a pfm proto m)"
  using keys_fold_overrideKey by (auto simp: overrideProtocol_def split: option.splits)

lemma keys_overrideAddress:
  "fst ` set (mEncKeys s) \<subseteq> fst ` set (mEncKeys (overrideAddress e entry s))"
proof -
  have "fst ` set m \<subseteq> fst ` set (fold (overrideProtocol e fmt a pfm) ps m)" for m fmt a pfm ps
  proof (induction ps arbitrary: m)
    case Nil
    show ?case by simp
  next
    case (Cons p ps)
    show ?case
      using keys_overrideProtocol [of m e fmt a pfm p] Cons.IH [of "overrideProtocol e fmt a pfm p m"]
      by auto
  qed
  then show ?thesis
    by (simp add: overrideAddress_def)
qed

lemma keys_resolveOverrides:
  "fst ` set (mEncKeys s) \<subseteq> fst ` set (mEncKeys (resolveOverrides e s))"
proof -
  have "fst ` set (mEncKeys s) \<subseteq> fst ` set (mEncKeys (fold (overrideAddress e) entries s))"
    for entries
  proof (induction entries arbitrary: s)
    case Nil
    show ?case by simp
  next
    case (Cons entry entries)
    show ?case
      using keys_overrideAddress [of s e entry] Cons.IH [of "overrideAddress e entry s"]
      by auto
  qed
  then show ?thesis
    by (simp add: resolveOverrides_def)
qed

lemma keys_resolveEnc [simp]:
  "fst ` set (mEncKeys (resolveEnc e proto s)) = fst ` set (mEncKeys s)"
proof -
  have "fst \<circ> resolveEncEntry e s proto = fst"
    by (auto simp: resolveEncEntry_def fun_eq_iff)
  then show ?thesis
    by (simp add: resolveEnc_def image_comp)
qed

lemma resolveEnc_fields [simp]:
  "mCompliance (resolveEnc e proto s) = mCompliance s"
  "mMinimumValidity (resolveEnc e proto s) = mMinimumValidity s"
  "mFormat (resolveEnc e proto s) = mFormat s"
  "mSign (resolveEnc e proto s) = mSign s"
  "mSigKeys (resolveEnc e proto s) = mSigKeys s"
  by (simp_all add: resolveEnc_def)

lemma keys_mergeEncryptionKeys [simp]:
  "fst ` set (mEncKeys (mergeEncryptionKeys e s)) = fst ` set (mEncKeys s)"
proof -
  have "fst \<circ> mergeEntry e (mPreferredProtocol s) = fst"
    by (auto simp: mergeEntry_def fun_eq_iff Let_def)
  then show ?thesis
    by (simp add: mergeEncryptionKeys_def image_comp)
qed

lemma mergeEntry_keeps_protocols:
  "p \<noteq> UnknownProtocol \<Longrightarrow> valueOr (snd (mergeEntry e preferred (a, m))) p = valueOr m p"
  by (simp add: mergeEntry_def Let_def valueOr_def)

lemma mergeEncryptionKeys_encKeysOf:
  assumes "p \<noteq> UnknownProtocol"
  shows "encKeysOf (mergeEncryptionKeys e s) a p = encKeysOf s a p"
proof (cases "map_of (mEncKeys s) a")
  case None
  then show ?thesis
    by (simp add: encKeysOf_mergeEncryptionKeys) (simp add: encKeysOf_def qmapValue_def valueOr_def)
next
  case (Some m)
  then have "encKeysOf (mergeEncryptionKeys e s) a p = valueOr m p"
    using assms by (simp add: encKeysOf_mergeEncryptionKeys mergeEntry_keeps_protocols)
  then show ?thesis
    by (simp add: encKeysOf_def qmapValue_def Some)
qed

lemma unresolvedRecipients_member:
  assumes "a \<in> fst ` set (mEncKeys s)" and "encKeysOf s a p = []"
  shows "a \<in> set (unresolvedRecipients s p)"
proof -
  obtain m where m: "map_of (mEncKeys s) a = Some m"
    using assms(1) by (metis map_of_eq_None_iff not_None_eq)
  then have "(a, m) \<in> set (mEncKeys s)"
    by (rule map_of_SomeD)
  moreover have "valueOr m p = []"
    using assms(2) by (simp add: encKeysOf_def qmapValue_def m)
  ultimately show ?thesis
    by (force simp: unresolvedRecipients_def)
qed

subsection \<open>The decision for an unresolvable recipient\<close>

text \<open>
  Claim C3. Let \<open>a\<close> be a recipient of a request with encryption. If the overrides leave
  the OpenPGP and the CMS slot of \<open>a\<close> empty and the lookup yields no acceptable
  certificate for \<open>a\<close> in either protocol (\<open>resolveRecipient\<close> returns the empty list),
  then \<open>resolve\<close> returns \<open>false\<close>, the outcome that asks the user, and \<open>a\<close> is listed
  by \<open>unresolvedRecipients\<close> for OpenPGP and for CMS.
\<close>

theorem unresolvable_recipient_needs_user:
  assumes enc: "mEncrypt s"
    and rcp: "a \<in> fst ` set (mEncKeys s)"
    and ovP: "encKeysOf (resolveOverrides e s) a OpenPGP = []"
    and ovC: "encKeysOf (resolveOverrides e s) a CMS = []"
    and noP: "resolveRecipient e s a OpenPGP = []"
    and noC: "resolveRecipient e s a CMS = []"
  shows "fst (resolve e s) = False
       \<and> a \<in> set (unresolvedRecipients (snd (resolve e s)) OpenPGP)
       \<and> a \<in> set (unresolvedRecipients (snd (resolve e s)) CMS)"
proof -
  define s1 where "s1 = resolveOverrides e s"
  define s2 where "s2 = (if mFormat s1 \<noteq> CMS then resolveEnc e OpenPGP (resolveSign e OpenPGP s1) else s1)"
  define s3 where "s3 = (if mFormat s2 \<noteq> OpenPGP then resolveEnc e CMS (resolveSign e CMS s2) else s2)"
  define s4 where "s4 = (if mAllowMixed s3 \<and> mFormat s3 = UnknownProtocol then mergeEncryptionKeys e s3 else s3)"
  obtain m where m: "s1 = s\<lparr>mEncKeys := m\<rparr>"
    using resolveOverrides_frame s1_def by blast
  have same1: "resolveRecipient e s1 a p = resolveRecipient e s a p" for p
    by (rule resolveRecipient_cong) (simp_all add: m)
  have k1: "a \<in> fst ` set (mEncKeys s1)"
    using rcp keys_resolveOverrides s1_def by blast
  have p1: "encKeysOf s1 a OpenPGP = []" and c1: "encKeysOf s1 a CMS = []"
    using ovP ovC by (simp_all add: s1_def)
  have same2: "resolveRecipient e s2 a p = resolveRecipient e s a p" for p
    using same1 [of p] resolveRecipient_cong [of s2 s1 e a p] by (simp add: s2_def)
  have k2: "a \<in> fst ` set (mEncKeys s2)"
    using k1 by (simp add: s2_def)
  have p2: "encKeysOf s2 a OpenPGP = []"
    using p1 k1 noP same1 [of OpenPGP]
      resolveRecipient_cong [of "resolveSign e OpenPGP s1" s1 e a OpenPGP]
    by (simp add: s2_def encKeysOf_resolveEnc)
  have c2: "encKeysOf s2 a CMS = []"
    using c1 by (simp add: s2_def encKeysOf_resolveEnc)
  have k3: "a \<in> fst ` set (mEncKeys s3)"
    using k2 by (simp add: s3_def)
  have p3: "encKeysOf s3 a OpenPGP = []"
    using p2 by (simp add: s3_def encKeysOf_resolveEnc)
  have c3: "encKeysOf s3 a CMS = []"
    using c2 k2 noC same2 [of CMS]
      resolveRecipient_cong [of "resolveSign e CMS s2" s2 e a CMS]
    by (simp add: s3_def encKeysOf_resolveEnc)
  have k4: "a \<in> fst ` set (mEncKeys s4)"
    using k3 by (simp add: s4_def)
  have p4: "encKeysOf s4 a OpenPGP = []" and c4: "encKeysOf s4 a CMS = []"
    using p3 c3 by (simp_all add: s4_def mergeEncryptionKeys_encKeysOf)
  have uP: "a \<in> set (unresolvedRecipients s2 OpenPGP)"
    using k2 p2 by (rule unresolvedRecipients_member)
  have uC: "a \<in> set (unresolvedRecipients s3 CMS)"
    using k3 c3 by (rule unresolvedRecipients_member)
  have ex: "list_ex (\<lambda>unresolved. unresolved \<in> set (unresolvedRecipients s3 CMS))
              (unresolvedRecipients s2 OpenPGP)"
    using uP uC by (auto simp: list_ex_iff)
  have neP: "unresolvedRecipients s2 OpenPGP \<noteq> []" and neC: "unresolvedRecipients s3 CMS \<noteq> []"
    using uP uC by auto
  have "resolve e s = (False, s4)"
    using enc ex neP neC
    unfolding resolve_def s1_def [symmetric] Let_def s2_def [symmetric] s3_def [symmetric] s4_def [symmetric]
    by simp
  moreover have "a \<in> set (unresolvedRecipients s4 OpenPGP)"
    using k4 p4 by (rule unresolvedRecipients_member)
  moreover have "a \<in> set (unresolvedRecipients s4 CMS)"
    using k4 c4 by (rule unresolvedRecipients_member)
  ultimately show ?thesis by simp
qed

theorem unresolvable_recipient_needs_user_witness:
  "mEncrypt nobodyExample
   \<and> ''nobody@x'' \<in> fst ` set (mEncKeys nobodyExample)
   \<and> encKeysOf (resolveOverrides exampleEnv nobodyExample) ''nobody@x'' OpenPGP = []
   \<and> encKeysOf (resolveOverrides exampleEnv nobodyExample) ''nobody@x'' CMS = []
   \<and> resolveRecipient exampleEnv nobodyExample ''nobody@x'' OpenPGP = []
   \<and> resolveRecipient exampleEnv nobodyExample ''nobody@x'' CMS = []
   \<and> fst (resolve exampleEnv nobodyExample) = False
   \<and> ''nobody@x'' \<in> set (unresolvedRecipients (snd (resolve exampleEnv nobodyExample)) OpenPGP)
   \<and> ''nobody@x'' \<in> set (unresolvedRecipients (snd (resolve exampleEnv nobodyExample)) CMS)"
proof -
  have h1: "mEncrypt nobodyExample"
    and h2: "''nobody@x'' \<in> fst ` set (mEncKeys nobodyExample)"
    and h3: "encKeysOf (resolveOverrides exampleEnv nobodyExample) ''nobody@x'' OpenPGP = []"
    and h4: "encKeysOf (resolveOverrides exampleEnv nobodyExample) ''nobody@x'' CMS = []"
    and h5: "resolveRecipient exampleEnv nobodyExample ''nobody@x'' OpenPGP = []"
    and h6: "resolveRecipient exampleEnv nobodyExample ''nobody@x'' CMS = []"
    by (simp_all add: nobodyExample_def example_defs resolve_defs)
  show ?thesis
    using unresolvable_recipient_needs_user [OF h1 h2 h3 h4 h5 h6] h1 h2 h3 h4 h5 h6
    by simp
qed

section \<open>Addresses that fail normalisation\<close>

subsection \<open>The list of fatal errors is never read\<close>

lemma isAcceptableSigningKey_errors [simp]:
  "isAcceptableSigningKey (s\<lparr>mFatalErrors := errs\<rparr>) key = isAcceptableSigningKey s key"
  by (simp add: isAcceptableSigningKey_def)

lemma signingKeysPass_errors [simp]:
  "signingKeysPass (s\<lparr>mFatalErrors := errs\<rparr>) keys = signingKeysPass s keys"
  by (induction keys) simp_all

lemma resolveSign_errors:
  "resolveSign e proto (s\<lparr>mFatalErrors := errs\<rparr>) = (resolveSign e proto s)\<lparr>mFatalErrors := errs\<rparr>"
  by (simp add: resolveSign_def Let_def)

lemma resolveEnc_errors:
  "resolveEnc e proto (s\<lparr>mFatalErrors := errs\<rparr>) = (resolveEnc e proto s)\<lparr>mFatalErrors := errs\<rparr>"
proof -
  have "resolveRecipient e (s\<lparr>mFatalErrors := errs\<rparr>) a p = resolveRecipient e s a p" for a p
    by (rule resolveRecipient_cong) simp_all
  then have "resolveEncEntry e (s\<lparr>mFatalErrors := errs\<rparr>) proto = resolveEncEntry e s proto"
    by (simp add: resolveEncEntry_def fun_eq_iff)
  then show ?thesis
    by (simp add: resolveEnc_def)
qed

lemma overrideAddress_errors:
  "overrideAddress e entry (s\<lparr>mFatalErrors := errs\<rparr>)
     = (overrideAddress e entry s)\<lparr>mFatalErrors := errs\<rparr>"
  by (simp add: overrideAddress_def)

lemma resolveOverrides_errors:
  "resolveOverrides e (s\<lparr>mFatalErrors := errs\<rparr>) = (resolveOverrides e s)\<lparr>mFatalErrors := errs\<rparr>"
proof -
  have "fold (overrideAddress e) entries (t\<lparr>mFatalErrors := errs\<rparr>)
      = (fold (overrideAddress e) entries t)\<lparr>mFatalErrors := errs\<rparr>" for entries t
    by (induction entries arbitrary: t) (simp_all add: overrideAddress_errors)
  then show ?thesis
    by (simp add: resolveOverrides_def)
qed

lemma mergeEncryptionKeys_errors:
  "mergeEncryptionKeys e (s\<lparr>mFatalErrors := errs\<rparr>) = (mergeEncryptionKeys e s)\<lparr>mFatalErrors := errs\<rparr>"
  by (simp add: mergeEncryptionKeys_def)

lemma removeProtocol_errors:
  "removeProtocol p (s\<lparr>mFatalErrors := errs\<rparr>) = (removeProtocol p s)\<lparr>mFatalErrors := errs\<rparr>"
  by (simp add: removeProtocol_def)

lemma unresolvedRecipients_errors [simp]:
  "unresolvedRecipients (s\<lparr>mFatalErrors := errs\<rparr>) p = unresolvedRecipients s p"
  by (simp add: unresolvedRecipients_def)

lemmas step_errors =
  resolveSign_errors resolveEnc_errors resolveOverrides_errors mergeEncryptionKeys_errors
  removeProtocol_errors

lemma resolve_errors:
  "resolve e (s\<lparr>mFatalErrors := errs\<rparr>)
     = (fst (resolve e s), (snd (resolve e s))\<lparr>mFatalErrors := errs\<rparr>)"
proof -
  define D where "D = (\<lambda>s2 s3 s4.
        let unresolvedPGP = unresolvedRecipients s2 OpenPGP;
            pgpOnly = (unresolvedPGP = []
                       \<and> (if mSign s2 then contains (mSigKeys s2) OpenPGP else True));
            unresolvedCMS = unresolvedRecipients s3 CMS;
            cmsOnly = (unresolvedCMS = []
                       \<and> (if mSign s3 then contains (mSigKeys s3) CMS else True));
            needsUser =
              (if \<not> pgpOnly \<and> \<not> cmsOnly then
                 list_ex (\<lambda>unresolved. unresolved \<in> set unresolvedCMS) unresolvedPGP
                 \<or> (if mSign s4
                     then \<not> (contains (mSigKeys s4) OpenPGP \<and> contains (mSigKeys s4) CMS)
                     else False)
               else False)
        in
        if \<not> needsUser then
          (True,
           if pgpOnly \<and> cmsOnly then
             (if mPreferredProtocol s4 = CMS then removeProtocol OpenPGP s4
              else removeProtocol CMS s4)
           else if pgpOnly then removeProtocol CMS s4
           else if cmsOnly then removeProtocol OpenPGP s4
           else s4)
        else (False, s4))"
  define S2 where "S2 = (\<lambda>s1. if mFormat s1 \<noteq> CMS
        then resolveEnc e OpenPGP (resolveSign e OpenPGP s1) else s1)"
  define S3 where "S3 = (\<lambda>s2. if mFormat s2 \<noteq> OpenPGP
        then resolveEnc e CMS (resolveSign e CMS s2) else s2)"
  define S4 where "S4 = (\<lambda>s3. if mAllowMixed s3 \<and> mFormat s3 = UnknownProtocol
        then mergeEncryptionKeys e s3 else s3)"
  have unfold: "resolve e u =
      (if \<not> mSign u \<and> \<not> mEncrypt u then (True, u)
       else D (S2 (resolveOverrides e u)) (S3 (S2 (resolveOverrides e u)))
              (S4 (S3 (S2 (resolveOverrides e u)))))" for u
    unfolding resolve_def D_def S2_def S3_def S4_def Let_def by (rule refl)
  have s2: "S2 (u\<lparr>mFatalErrors := errs\<rparr>) = (S2 u)\<lparr>mFatalErrors := errs\<rparr>" for u
    by (simp add: S2_def step_errors)
  have s3: "S3 (u\<lparr>mFatalErrors := errs\<rparr>) = (S3 u)\<lparr>mFatalErrors := errs\<rparr>" for u
    by (simp add: S3_def step_errors)
  have s4: "S4 (u\<lparr>mFatalErrors := errs\<rparr>) = (S4 u)\<lparr>mFatalErrors := errs\<rparr>" for u
    by (simp add: S4_def step_errors)
  have d: "D (u2\<lparr>mFatalErrors := errs\<rparr>) (u3\<lparr>mFatalErrors := errs\<rparr>)
             (u4\<lparr>mFatalErrors := errs\<rparr>)
         = (fst (D u2 u3 u4), (snd (D u2 u3 u4))\<lparr>mFatalErrors := errs\<rparr>)" for u2 u3 u4
    by (simp add: D_def Let_def removeProtocol_errors)
  show ?thesis
    by (simp add: unfold resolveOverrides_errors s2 s3 s4 d)
qed

text \<open>
  Claim C8. A recipient from which no address can be extracted is recorded in
  \<open>mFatalErrors\<close> (``error for bug reporting'') and skipped, and so is such a sender.
  Nothing reads that list: \<open>resolve\<close> runs over the remaining recipient and reports
  success, with the certificate found for it. The claim has the resolution halt with a
  fatal input error.
\<close>

theorem failed_normalisation_does_not_halt:
  "addrSpecFromString exampleEnv ''no address'' = []
   \<and> mFatalErrors errorsExample = [recipientError ''no address'']
   \<and> mRecipients errorsExample = [''pgp@x'']
   \<and> fst (resolve exampleEnv errorsExample) = True
   \<and> encryptionKeys (snd (resolve exampleEnv errorsExample)) OpenPGP
       = Some [(''pgp@x'', [exampleKey OpenPGP ''P2'' ''pgp@x'' Full])]
   \<and> mFatalErrors (snd (resolve exampleEnv errorsExample)) = [recipientError ''no address'']
   \<and> mFatalErrors noSenderExample = [senderError ''no address'']
   \<and> fst (resolve exampleEnv noSenderExample) = True
   \<and> mFatalErrors (snd (resolve exampleEnv noSenderExample)) = [senderError ''no address'']"
  by code_simp

section \<open>Where the resolver departs from its tests\<close>

text \<open>
  Claim C1. Both protocols resolve the request completely, \<open>resolve\<close> reports success
  and keeps OpenPGP. The S/MIME certificates that were found for signing and for the
  recipient are removed from \<open>mSigKeys\<close> and \<open>mEncKeys\<close>: neither \<open>signingKeys\<close> nor
  \<open>encryptionKeys\<close> returns anything for CMS afterwards, so no alternative solution
  reaches the caller. The test expects the S/MIME certificates as the alternative.
\<close>

theorem dropped_protocol_is_not_kept_as_alternative:
  "resolveRecipient exampleEnv bothExample ''mixed@x'' CMS
     = [exampleKey CMS ''S1'' ''mixed@x'' Full]
   \<and> fst (resolve exampleEnv bothExample) = True
   \<and> signingKeys (snd (resolve exampleEnv bothExample)) OpenPGP
       = Some [exampleKey OpenPGP ''P1'' ''mixed@x'' Ultimate]
   \<and> encryptionKeys (snd (resolve exampleEnv bothExample)) OpenPGP
       = Some [(''mixed@x'', [exampleKey OpenPGP ''P1'' ''mixed@x'' Ultimate])]
   \<and> signingKeys (snd (resolve exampleEnv bothExample)) CMS = None
   \<and> encryptionKeys (snd (resolve exampleEnv bothExample)) CMS = None
   \<and> encryptionKeys (snd (resolve exampleEnv bothExample)) UnknownProtocol = None"
  by code_simp

text \<open>
  Claim C2. \<open>resolveOverrides\<close> skips an override only when its own protocol is the
  other one; an override without protocol is filed under the protocol of its
  certificate, here CMS. \<open>resolve\<close> then reports success with the automatically found
  OpenPGP certificate and removes the CMS slot: the override is dropped without an
  error. \<open>resolve\<close> has no outcome besides \<open>true\<close> and \<open>false\<close>. The test expects the
  error flag.
\<close>

theorem contradicting_override_is_no_error:
  "protocol (findByKeyIDOrFingerprint exampleEnv ''S3'') = CMS
   \<and> mFormat forcedExample = OpenPGP
   \<and> mFatalErrors (snd (resolve exampleEnv forcedExample)) = []
   \<and> fst (resolve exampleEnv forcedExample) = True
   \<and> encryptionKeys (snd (resolve exampleEnv forcedExample)) OpenPGP
       = Some [(''mixed@x'', [exampleKey OpenPGP ''P1'' ''mixed@x'' Ultimate])]
   \<and> encryptionKeys (snd (resolve exampleEnv forcedExample)) CMS = None"
  by code_simp

text \<open>
  Claim C5. The certificate of the override without protocol is appended to the list of
  the OpenPGP override instead of replacing it: the recipient is encrypted to both
  certificates, and the \<open>UnknownProtocol\<close> slot is filled by the merge with that same
  list. The test expects the certificate of the override without protocol alone.
\<close>

theorem common_override_is_appended_to_specific_override:
  "fst (resolve exampleEnv precedenceExample) = True
   \<and> encryptionKeys (snd (resolve exampleEnv precedenceExample)) OpenPGP
       = Some [(''pgp@x'', [exampleKey OpenPGP ''P1'' ''mixed@x'' Ultimate,
                            exampleKey OpenPGP ''P2'' ''pgp@x'' Full])]
   \<and> encryptionKeys (snd (resolve exampleEnv precedenceExample)) UnknownProtocol
       = Some [(''pgp@x'', [exampleKey OpenPGP ''P1'' ''mixed@x'' Ultimate,
                            exampleKey OpenPGP ''P2'' ''pgp@x'' Full])]
   \<and> encryptionKeys (snd (resolve exampleEnv precedenceExample)) CMS = None"
  by code_simp

end
